theory Spec2Isabelle
  imports Complex_Main "HOL-Library.Word"
begin

section \<open>Strings of the handler\<close>

text \<open>
  The handler of \<^verbatim>\<open>src/app/api/scrape/route.ts\<close> works on JavaScript strings, which are
  sequences of 16-bit code units. Every character that \<^verbatim>\<open>String.prototype.trim\<close> strips and
  that the regular expression class \<^verbatim>\<open>\s\<close> matches (ECMAScript WhiteSpace and
  LineTerminator) is a single code unit, so both are modelled per code unit.
\<close>

type_synonym code_unit = "16 word"
type_synonym jstring = "code_unit list"

definition utf16 :: "string \<Rightarrow> jstring" where
  \<comment> \<open>an ASCII literal of the source as code units\<close>
  "utf16 s = map (\<lambda>c. of_nat (of_char c)) s"

definition newline :: code_unit where
  "newline = 0x0A"

definition is_ws :: "code_unit \<Rightarrow> bool" where
  \<comment> \<open>WhiteSpace: TAB, VT, FF, SP, NBSP, ZWNBSP and category Zs; LineTerminator: LF, CR, LS, PS\<close>
  "is_ws c = (c \<in> set [0x0009, 0x000A, 0x000B, 0x000C, 0x000D, 0x0020, 0x00A0, 0x1680,
                        0x2000, 0x2001, 0x2002, 0x2003, 0x2004, 0x2005, 0x2006, 0x2007,
                        0x2008, 0x2009, 0x200A, 0x2028, 0x2029, 0x202F, 0x205F, 0x3000,
                        0xFEFF])"

definition trim :: "jstring \<Rightarrow> jstring" where
  \<comment> \<open>\<^verbatim>\<open>s.trim()\<close>\<close>
  "trim s = rev (dropWhile is_ws (rev (dropWhile is_ws s)))"

fun split_where :: "('a \<Rightarrow> bool) \<Rightarrow> 'a list \<Rightarrow> 'a list list" where
  \<comment> \<open>cut at every element that is a separator; \<^verbatim>\<open>"".split(sep)\<close> is \<^verbatim>\<open>[""]\<close>\<close>
  "split_where P [] = [[]]"
| "split_where P (x # xs) =
     (let r = split_where P xs
      in if P x then [] # r else (x # hd r) # tl r)"

definition split_newline :: "jstring \<Rightarrow> jstring list" where
  \<comment> \<open>\<^verbatim>\<open>s.split('\n')\<close>\<close>
  "split_newline s = split_where (\<lambda>c. c = newline) s"

function split_ws :: "jstring \<Rightarrow> jstring list" where
  \<comment> \<open>\<^verbatim>\<open>s.split(/\s+/)\<close>: the separators are the maximal runs of white space\<close>
  "split_ws s =
     (let tok = takeWhile (\<lambda>c. \<not> is_ws c) s;
          rest = dropWhile (\<lambda>c. \<not> is_ws c) s
      in if rest = [] then [tok] else tok # split_ws (dropWhile is_ws rest))"
  by pat_completeness auto
termination
proof (relation "measure length")
  fix s tok rest :: jstring
  assume r: "rest = dropWhile (\<lambda>c. \<not> is_ws c) s" and ne: "rest \<noteq> []"
  from ne obtain c r' where c: "rest = c # r'" by (cases rest) auto
  have "length (dropWhile is_ws rest) \<le> length rest"
    by (rule length_dropWhile_le)
  moreover have "dropWhile (\<lambda>c. \<not> is_ws c) s = c # r'"
    using c r by simp
  then have "is_ws c"
    by (simp add: dropWhile_eq_Cons_conv)
  then have "length (dropWhile is_ws rest) \<le> length r'"
    using c by (simp add: length_dropWhile_le)
  moreover have "length rest \<le> length s"
    unfolding r by (rule length_dropWhile_le)
  ultimately show "(dropWhile is_ws rest, s) \<in> measure length"
    using c by simp
qed simp

declare split_ws.simps [simp del]

fun join :: "'a list \<Rightarrow> 'a list list \<Rightarrow> 'a list" where
  \<comment> \<open>\<^verbatim>\<open>parts.join(sep)\<close>\<close>
  "join sep [] = []"
| "join sep [x] = x"
| "join sep (x # y # ys) = x @ sep @ join sep (y # ys)"

definition cleanedTextContent :: "jstring \<Rightarrow> jstring" where
  \<comment> \<open>lines 78-82: split into lines, trim each, drop the empty ones, join with a blank line\<close>
  "cleanedTextContent rawTextContent =
     join [newline, newline]
       (filter (\<lambda>line. length line > 0)
          (map (\<lambda>line. trim line)
             (split_newline rawTextContent)))"

section \<open>JavaScript values\<close>

text \<open>
  The request body and the JSON-LD entries are JavaScript values. Numbers are the integers
  (milliseconds, status codes, counts) that the handler's options use; a fractional
  number is outside the model. An object is the list of its own properties, each key
  once, as \<^verbatim>\<open>JSON.parse\<close> builds it. \<open>JUndefined\<close> is the value of a property that
  is not there.
\<close>

datatype jsval =
    JUndefined
  | JNull
  | JBool bool
  | JNum int
  | JStr jstring
  | JArr "jsval list"
  | JObj "(jstring \<times> jsval) list"

fun truthy :: "jsval \<Rightarrow> bool" where
  \<comment> \<open>\<^verbatim>\<open>Boolean(v)\<close>, the test of \<^verbatim>\<open>!v\<close>, \<^verbatim>\<open>v || w\<close> and \<^verbatim>\<open>if (v)\<close>\<close>
  "truthy JUndefined = False"
| "truthy JNull = False"
| "truthy (JBool b) = b"
| "truthy (JNum n) = (n \<noteq> 0)"
| "truthy (JStr s) = (s \<noteq> [])"
| "truthy (JArr vs) = True"
| "truthy (JObj kvs) = True"

fun get_prop :: "jsval \<Rightarrow> jstring \<Rightarrow> jsval" where
  \<comment> \<open>\<^verbatim>\<open>v?.k\<close> for the keys the handler reads (url, options, userAgent, blockResources,
      timeout, postWait, screenshot): only an object can have them\<close>
  "get_prop (JObj kvs) k = (case map_of kvs k of Some v \<Rightarrow> v | None \<Rightarrow> JUndefined)"
| "get_prop v k = JUndefined"

definition orElse :: "jstring option \<Rightarrow> jstring \<Rightarrow> jstring" where
  \<comment> \<open>\<^verbatim>\<open>x || s\<close> where \<open>x\<close> is a string, null or undefined and \<open>s\<close> is a string\<close>
  "orElse x s = (case x of None \<Rightarrow> s | Some t \<Rightarrow> if t \<noteq> [] then t else s)"

definition orStr :: "jstring \<Rightarrow> jstring \<Rightarrow> jstring" where
  \<comment> \<open>\<^verbatim>\<open>a || b\<close> on two strings\<close>
  "orStr a b = (if a \<noteq> [] then a else b)"

section \<open>The external collaborators\<close>

text \<open>
  The browser engine (playwright), the DOM library (jsdom), the readability heuristic, the
  URL and JSON parsers and the clock are outside the repository. What each of their calls
  does during one request is a field of \<open>env\<close>; a thrown error is its message.
  The handler gives \<^verbatim>\<open>Readability\<close> the document object itself (line 73), not a copy, and
  queries the same object afterwards (lines 85-119): a \<open>document\<close> is what those queries
  see at one moment, and \<open>Readability_parse\<close> returns the later one with the article.
\<close>

type_synonym error = jstring

datatype 'a promise = Fulfilled 'a | Rejected error

type_synonym browser = nat

record document =
  title_textContent :: "jstring option"
    \<comment> \<open>\<^verbatim>\<open>doc.querySelector("title")?.textContent\<close>\<close>
  meta_name_content :: "jstring \<Rightarrow> jstring option"
    \<comment> \<open>\<^verbatim>\<open>doc.querySelector(`meta[name="${name}"]`)?.getAttribute("content")\<close>\<close>
  meta_property_content :: "jstring \<Rightarrow> jstring option"
    \<comment> \<open>\<^verbatim>\<open>doc.querySelector(`meta[property="${name}"]`)?.getAttribute("content")\<close>\<close>
  canonical_href :: "jstring option"
    \<comment> \<open>\<^verbatim>\<open>doc.querySelector('link[rel="canonical"]')?.getAttribute("href")\<close>\<close>
  ld_json_scripts :: "jstring option list"
    \<comment> \<open>\<^verbatim>\<open>s.textContent\<close> of each \<^verbatim>\<open>script[type="application/ld+json"]\<close>, in document order\<close>
  anchor_hrefs :: "jstring list"
    \<comment> \<open>the resolved \<^verbatim>\<open>href\<close> of each \<^verbatim>\<open>a[href]\<close>, in document order\<close>
  heading_elements :: "(jstring \<times> jstring option) list"
    \<comment> \<open>\<^verbatim>\<open>tagName\<close> and \<^verbatim>\<open>textContent\<close> of each \<^verbatim>\<open>h1,h2,h3\<close>, in document order\<close>
  img_elements :: "(jstring \<times> jstring option) list"
    \<comment> \<open>the resolved \<^verbatim>\<open>src\<close> and \<^verbatim>\<open>getAttribute("alt")\<close> of each \<^verbatim>\<open>img\<close>\<close>
  body_textContent :: "jstring option"
    \<comment> \<open>\<^verbatim>\<open>doc.body?.textContent\<close>\<close>

record parsed_article =
  \<comment> \<open>the fields of \<^verbatim>\<open>reader.parse()\<close> that the handler reads\<close>
  parsed_title :: "jstring option"
  parsed_excerpt :: "jstring option"
  parsed_content :: "jstring option"
  parsed_textContent :: "jstring option"

record env =
  URL_valid :: "jsval \<Rightarrow> bool"
    \<comment> \<open>\<^verbatim>\<open>new URL(url)\<close> returns\<close>
  launch :: "browser promise"
    \<comment> \<open>\<^verbatim>\<open>chromium.launch(...)\<close>\<close>
  newContext :: "jsval \<Rightarrow> error + unit"
    \<comment> \<open>\<^verbatim>\<open>browser.newContext({ userAgent, viewport })\<close>\<close>
  route :: "error + unit"
    \<comment> \<open>\<^verbatim>\<open>context.route("**/*", ...)\<close>\<close>
  newPage :: "error + unit"
  goto :: "jsval \<Rightarrow> int \<Rightarrow> error + int option"
    \<comment> \<open>\<^verbatim>\<open>page.goto(url, { waitUntil: "networkidle", timeout })\<close>: the status of the
        response, or no response\<close>
  waitForTimeout :: "int \<Rightarrow> error + unit"
  page_url :: jstring
  page_content :: "error + jstring"
  JSDOM :: "jstring \<Rightarrow> jstring \<Rightarrow> error + document"
    \<comment> \<open>\<^verbatim>\<open>new JSDOM(html, { url: finalUrl }).window.document\<close>\<close>
  Readability_parse :: "document \<Rightarrow> error + (parsed_article option \<times> document)"
    \<comment> \<open>\<^verbatim>\<open>new Readability(doc).parse()\<close>: the article, and the document as the call
        leaves it (\<^verbatim>\<open>parse\<close> works on the object it is given: it removes the scripts
        and takes the content it examines out of the tree)\<close>
  JSON_parse :: "jstring \<Rightarrow> jsval option"
    \<comment> \<open>\<open>None\<close> when \<^verbatim>\<open>JSON.parse\<close> throws\<close>
  toISOString_now :: jstring
  page_screenshot :: "error + jstring"
    \<comment> \<open>\<^verbatim>\<open>(await page.screenshot({ fullPage: true })).toString("base64")\<close>\<close>
  page_close :: "error + unit"
  context_close :: "error + unit"

section \<open>Process state\<close>

text \<open>
  The state that outlives a request: the cached launch, the contexts and pages that are
  open in the browser, and the calls made to the browser engine so far.
\<close>

datatype call =
    Launch | NewContext | Route | NewPage | Goto | WaitForTimeout | Content
  | Screenshot | ClosePage | CloseContext

record world =
  sagashi_browser :: "browser promise option"
    \<comment> \<open>\<^verbatim>\<open>globalThis.__sagashi_browser\<close>\<close>
  calls :: "call list"
    \<comment> \<open>the calls to the browser engine, oldest first\<close>
  next_handle :: nat
  open_contexts :: "nat list"
  open_pages :: "nat list"

definition called :: "call \<Rightarrow> world \<Rightarrow> world" where
  "called c w = w\<lparr>calls := calls w @ [c]\<rparr>"

definition getBrowser :: "env \<Rightarrow> world \<Rightarrow> world \<times> browser promise" where
  \<comment> \<open>lines 13-21\<close>
  "getBrowser e w =
     (case sagashi_browser w of
        None \<Rightarrow>
          (let p = launch e
           in ((called Launch w)\<lparr>sagashi_browser := Some p\<rparr>, p))
      | Some p \<Rightarrow> (w, p))"

section \<open>The extraction pipeline\<close>

record article_record =
  article_title :: "jstring option"
  article_excerpt :: "jstring option"
  article_content :: "jstring option"
  article_textContent :: jstring

record heading =
  heading_tag :: jstring
  heading_text :: jstring

record image =
  src :: jstring
  alt :: jstring

record result =
  url :: jsval
  finalUrl :: jstring
  status :: int
  title :: jstring
  description :: jstring
  canonical :: jstring
  ogImage :: jstring
  jsonLd :: "jsval list"
  article :: "article_record option"
  links :: "jstring list"
  headings :: "heading list"
  images :: "image list"
  wordCount :: nat
  readingTimeMinutes :: nat
  scrapedAt :: jstring
  screenshot :: "jstring option"
  screenshotMime :: "jstring option"

definition getMeta :: "document \<Rightarrow> jstring \<Rightarrow> jstring" where
  \<comment> \<open>lines 85-88\<close>
  "getMeta doc name = orElse (meta_name_content doc name) (orElse (meta_property_content doc name) [])"

definition jsonLd_entry :: "env \<Rightarrow> jstring option \<Rightarrow> jsval" where
  \<comment> \<open>lines 97-101: the parsed body, or on a parse error \<^verbatim>\<open>s.textContent || null\<close>\<close>
  "jsonLd_entry e textContent =
     (case JSON_parse e (orElse textContent []) of
        Some v \<Rightarrow> v
      | None \<Rightarrow>
          (case textContent of
             None \<Rightarrow> JNull
           | Some t \<Rightarrow> if t \<noteq> [] then JStr t else JNull))"

definition Set_add :: "'a list \<Rightarrow> 'a \<Rightarrow> 'a list" where
  \<comment> \<open>a JavaScript \<^verbatim>\<open>Set\<close> as the list of its elements in insertion order\<close>
  "Set_add s x = (if x \<in> set s then s else s @ [x])"

definition new_Set :: "'a list \<Rightarrow> 'a list" where
  \<comment> \<open>\<^verbatim>\<open>Array.from(new Set(xs))\<close>\<close>
  "new_Set xs = foldl Set_add [] xs"

definition uniqueLinks :: "document \<Rightarrow> jstring list" where
  \<comment> \<open>lines 105-108\<close>
  "uniqueLinks doc = take 2000 (new_Set (filter (\<lambda>href. href \<noteq> []) (anchor_hrefs doc)))"

definition headings_of :: "document \<Rightarrow> heading list" where
  \<comment> \<open>lines 110-113\<close>
  "headings_of doc =
     map (\<lambda>(tagName, textContent).
            \<lparr> heading_tag = tagName,
              heading_text = (case textContent of None \<Rightarrow> [] | Some t \<Rightarrow> trim t) \<rparr>)
         (heading_elements doc)"

definition images_of :: "document \<Rightarrow> image list" where
  \<comment> \<open>lines 115-117\<close>
  "images_of doc =
     take 500 (map (\<lambda>(s, a). \<lparr> src = s, alt = orElse a [] \<rparr>) (img_elements doc))"

definition Math_ceil_div :: "nat \<Rightarrow> nat \<Rightarrow> nat" where
  \<comment> \<open>\<^verbatim>\<open>Math.ceil(n / d)\<close> for a count \<open>n\<close>\<close>
  "Math_ceil_div n d = nat \<lceil>real n / real d\<rceil>"

definition extract_result :: "env \<Rightarrow> jsval \<Rightarrow> jstring \<Rightarrow> int \<Rightarrow> document \<Rightarrow> parsed_article option \<Rightarrow> result" where
  \<comment> \<open>lines 76-146\<close>
  "extract_result e url_arg finalUrl_arg status_arg doc parsed =
     (let rawTextContent =
            orElse (case parsed of None \<Rightarrow> None | Some a \<Rightarrow> parsed_textContent a) [];
          cleaned = cleanedTextContent rawTextContent;
          mainText = trim (orStr cleaned (orElse (body_textContent doc) []));
          words = (if mainText \<noteq> []
                   then length (filter (\<lambda>t. t \<noteq> []) (split_ws mainText)) else 0)
      in \<lparr> url = url_arg,
           finalUrl = finalUrl_arg,
           status = status_arg,
           title = trim (orElse (title_textContent doc)
                          (orElse (case parsed of None \<Rightarrow> None | Some a \<Rightarrow> parsed_title a) [])),
           description = orStr (getMeta doc (utf16 ''description''))
                           (orStr (getMeta doc (utf16 ''og:description''))
                              (getMeta doc (utf16 ''twitter:description''))),
           canonical = orElse (canonical_href doc) [],
           ogImage = orStr (getMeta doc (utf16 ''og:image'')) (getMeta doc (utf16 ''twitter:image'')),
           jsonLd = filter truthy (map (jsonLd_entry e) (ld_json_scripts doc)),
           article =
             (case parsed of
                None \<Rightarrow> None
              | Some a \<Rightarrow>
                  Some \<lparr> article_title = parsed_title a,
                         article_excerpt = parsed_excerpt a,
                         article_content = parsed_content a,
                         article_textContent = cleaned \<rparr>),
           links = uniqueLinks doc,
           headings = headings_of doc,
           images = images_of doc,
           wordCount = words,
           readingTimeMinutes = max 1 (Math_ceil_div words 200),
           scrapedAt = toISOString_now e,
           screenshot = None,
           screenshotMime = None \<rparr>)"

section \<open>The request handler\<close>

text \<open>
  \<^verbatim>\<open>POST\<close> is one \<^verbatim>\<open>try\<close> block; the model cuts it into \<open>scrape\<close> (lines 38-54),
  \<open>open_page\<close> (line 56), \<open>render\<close> (lines 58-146), \<open>finish\<close> (lines 148-153) and
  \<open>close_both\<close> (lines 155-158), each passing the process state on. A step that throws
  ends the block with \<open>Inl\<close> of the error and the state reached so far. One request runs
  at a time, so a promise is settled when it is awaited. The callback given to
  \<^verbatim>\<open>context.route\<close> runs inside the browser engine, and \<^verbatim>\<open>console.error\<close> only logs:
  neither changes what the handler returns.
\<close>

datatype payload = ErrorBody jstring | ResultBody result

record response =
  http_status :: nat
  payload :: payload

definition NextResponse_json :: "payload \<Rightarrow> nat \<Rightarrow> response" where
  "NextResponse_json p st = \<lparr> http_status = st, payload = p \<rparr>"

definition default_userAgent :: jstring where
  "default_userAgent =
     utf16 ''Mozilla/5.0 (Windows NT 10.0; Win64; x64) AppleWebKit/537.36 (KHTML, like Gecko) Chrome/120 Safari/537.36''"

definition options_of :: "jsval \<Rightarrow> jsval" where
  \<comment> \<open>line 29: \<^verbatim>\<open>body?.options || {}\<close>\<close>
  "options_of body =
     (let options = get_prop body (utf16 ''options'')
      in if truthy options then options else JObj [])"

definition userAgent_of :: "jsval \<Rightarrow> jsval" where
  \<comment> \<open>lines 40-42: \<^verbatim>\<open>opts.userAgent || "Mozilla/5.0 ..."\<close>\<close>
  "userAgent_of opts =
     (let ua = get_prop opts (utf16 ''userAgent'')
      in if truthy ua then ua else JStr default_userAgent)"

definition timeout_of :: "jsval \<Rightarrow> int" where
  \<comment> \<open>line 59\<close>
  "timeout_of opts = (case get_prop opts (utf16 ''timeout'') of JNum n \<Rightarrow> n | _ \<Rightarrow> 20000)"

definition postWait_of :: "jsval \<Rightarrow> int" where
  \<comment> \<open>line 63\<close>
  "postWait_of opts = (case get_prop opts (utf16 ''postWait'') of JNum n \<Rightarrow> n | _ \<Rightarrow> 600)"

definition close_both :: "env \<Rightarrow> world \<Rightarrow> nat \<Rightarrow> nat \<Rightarrow> result \<Rightarrow> world \<times> (error + response)" where
  \<comment> \<open>lines 155-158: \<^verbatim>\<open>page.close()\<close>, \<^verbatim>\<open>context.close()\<close>, the response\<close>
  "close_both e w context page res =
     (case page_close e of
        Inl err \<Rightarrow> (called ClosePage w, Inl err)
      | Inr _ \<Rightarrow>
          (let w1 = (called ClosePage w)\<lparr>open_pages := removeAll page (open_pages w)\<rparr>
           in case context_close e of
                Inl err \<Rightarrow> (called CloseContext w1, Inl err)
              | Inr _ \<Rightarrow>
                  ((called CloseContext w1)
                     \<lparr>open_contexts := removeAll context (open_contexts w1)\<rparr>,
                   Inr (NextResponse_json (ResultBody res) 200))))"

definition finish :: "env \<Rightarrow> world \<Rightarrow> jsval \<Rightarrow> nat \<Rightarrow> nat \<Rightarrow> result \<Rightarrow> world \<times> (error + response)" where
  \<comment> \<open>lines 148-158: the optional screenshot, then the page and the context are closed\<close>
  "finish e w opts context page res =
     (if truthy (get_prop opts (utf16 ''screenshot''))
      then (case page_screenshot e of
              Inl err \<Rightarrow> (called Screenshot w, Inl err)
            | Inr base64 \<Rightarrow>
                close_both e (called Screenshot w) context page
                  (res\<lparr>screenshot := Some base64,
                       screenshotMime := Some (utf16 ''image/png'')\<rparr>))
      else close_both e w context page res)"

definition render :: "env \<Rightarrow> world \<Rightarrow> jsval \<Rightarrow> jsval \<Rightarrow> nat \<Rightarrow> nat \<Rightarrow> world \<times> (error + response)" where
  \<comment> \<open>lines 58-146: navigation, the extra wait, the markup, its parse and the extraction\<close>
  "render e w url_arg opts context page =
     (let timeout = timeout_of opts;
          response = (case goto e url_arg timeout of Inl err \<Rightarrow> None | Inr r \<Rightarrow> r);
          w1 = called WaitForTimeout (called Goto w)
      in case waitForTimeout e (postWait_of opts) of
           Inl err \<Rightarrow> (w1, Inl err)
         | Inr _ \<Rightarrow>
             (let finalUrl_now = page_url e;
                  status_now = (case response of None \<Rightarrow> 0 | Some st \<Rightarrow> st);
                  w2 = called Content w1
              in case page_content e of
                   Inl err \<Rightarrow> (w2, Inl err)
                 | Inr html \<Rightarrow>
                     (case JSDOM e html finalUrl_now of
                        Inl err \<Rightarrow> (w2, Inl err)
                      | Inr doc \<Rightarrow>
                          (case Readability_parse e doc of
                             Inl err \<Rightarrow> (w2, Inl err)
                           | Inr (parsed, doc') \<Rightarrow>
                               finish e w2 opts context page
                                 (extract_result e url_arg finalUrl_now status_now doc' parsed)))))"

definition open_page :: "env \<Rightarrow> world \<Rightarrow> jsval \<Rightarrow> jsval \<Rightarrow> nat \<Rightarrow> world \<times> (error + response)" where
  \<comment> \<open>line 56 and what follows it\<close>
  "open_page e w url_arg opts context =
     (case newPage e of
        Inl err \<Rightarrow> (called NewPage w, Inl err)
      | Inr _ \<Rightarrow>
          (let page = next_handle w;
               w1 = (called NewPage w)
                      \<lparr>next_handle := Suc page, open_pages := page # open_pages w\<rparr>
           in render e w1 url_arg opts context page))"

definition scrape :: "env \<Rightarrow> world \<Rightarrow> jsval \<Rightarrow> jsval \<Rightarrow> world \<times> (error + response)" where
  \<comment> \<open>lines 38-56: the browser, a fresh context, the resource blocking, a fresh page\<close>
  "scrape e w url_arg opts =
     (case getBrowser e w of
        (w1, Rejected err) \<Rightarrow> (w1, Inl err)
      | (w1, Fulfilled b) \<Rightarrow>
          (case newContext e (userAgent_of opts) of
             Inl err \<Rightarrow> (called NewContext w1, Inl err)
           | Inr _ \<Rightarrow>
               (let context = next_handle w1;
                    w2 = (called NewContext w1)
                           \<lparr>next_handle := Suc context,
                            open_contexts := context # open_contexts w1\<rparr>
                in if get_prop opts (utf16 ''blockResources'') \<noteq> JBool False
                   then (case route e of
                           Inl err \<Rightarrow> (called Route w2, Inl err)
                         | Inr _ \<Rightarrow> open_page e (called Route w2) url_arg opts context)
                   else open_page e w2 url_arg opts context)))"

definition POST_try :: "env \<Rightarrow> world \<Rightarrow> jsval option \<Rightarrow> world \<times> (error + response)" where
  \<comment> \<open>lines 27-158, the body of the \<^verbatim>\<open>try\<close>; the request's JSON is \<open>None\<close> when
      \<^verbatim>\<open>req.json()\<close> rejects\<close>
  "POST_try e w req_json =
     (let body = (case req_json of None \<Rightarrow> JObj [] | Some b \<Rightarrow> b);
          url_arg = get_prop body (utf16 ''url'');
          opts = options_of body
      in if \<not> truthy url_arg
         then (w, Inr (NextResponse_json (ErrorBody (utf16 ''Missing `url` in request body'')) 400))
         else if \<not> URL_valid e url_arg
         then (w, Inr (NextResponse_json (ErrorBody (utf16 ''Invalid URL'')) 400))
         else scrape e w url_arg opts)"

definition POST :: "env \<Rightarrow> world \<Rightarrow> jsval option \<Rightarrow> world \<times> response" where
  \<comment> \<open>lines 25-163: an error thrown inside the \<^verbatim>\<open>try\<close> becomes a 500 response with
      \<^verbatim>\<open>err?.message || "unknown error"\<close>\<close>
  "POST e w req_json =
     (case POST_try e w req_json of
        (w', Inl err) \<Rightarrow>
          (w', NextResponse_json (ErrorBody (orStr err (utf16 ''unknown error''))) 500)
      | (w', Inr r) \<Rightarrow> (w', r))"

definition response_result :: "response \<Rightarrow> result option" where
  \<comment> \<open>the extraction result a response carries, if it carries one\<close>
  "response_result r = (case payload r of ResultBody res \<Rightarrow> Some res | ErrorBody msg \<Rightarrow> None)"

section \<open>Notions of the specification\<close>

definition normalized_text :: "jstring \<Rightarrow> bool" where
  \<comment> \<open>the text is its non-empty lines, none with white space at either end, joined by
      blank lines\<close>
  "normalized_text t =
     (let ls = filter (\<lambda>l. l \<noteq> []) (split_newline t)
      in list_all (\<lambda>l. \<not> is_ws (hd l) \<and> \<not> is_ws (last l)) ls
         \<and> t = join [newline, newline] ls)"

definition whitespace_tokens :: "jstring \<Rightarrow> jstring list" where
  \<comment> \<open>the non-empty pieces between white space characters\<close>
  "whitespace_tokens s = filter (\<lambda>t. t \<noteq> []) (split_where is_ws s)"


definition article_text :: "parsed_article option \<Rightarrow> jstring" where
  \<comment> \<open>the plain text the heuristic produced; empty when it produced none\<close>
  "article_text parsed =
     (case parsed of
        None \<Rightarrow> []
      | Some a \<Rightarrow> (case parsed_textContent a of None \<Rightarrow> [] | Some t \<Rightarrow> t))"

definition token_count :: "jstring \<Rightarrow> jstring \<Rightarrow> nat" where
  \<comment> \<open>the number of tokens of the main text, or of the fallback text when the main text
      has no token\<close>
  "token_count main fallback =
     (if whitespace_tokens main \<noteq> [] then length (whitespace_tokens main)
      else length (whitespace_tokens fallback))"

definition reaches_extraction ::
  "env \<Rightarrow> world \<Rightarrow> jsval \<Rightarrow> jstring \<Rightarrow> document \<Rightarrow> parsed_article option \<Rightarrow> document \<Rightarrow> bool" where
  \<comment> \<open>the request is valid and every call up to the readability heuristic returns:
      \<open>doc\<close> is the document parsed from the markup, \<open>doc'\<close> what the heuristic leaves of it\<close>
  "reaches_extraction e w body html doc parsed doc' =
     (truthy (get_prop body (utf16 ''url''))
      \<and> URL_valid e (get_prop body (utf16 ''url''))
      \<and> (case snd (getBrowser e w) of Fulfilled b \<Rightarrow> True | Rejected err \<Rightarrow> False)
      \<and> newContext e (userAgent_of (options_of body)) = Inr ()
      \<and> (get_prop (options_of body) (utf16 ''blockResources'') = JBool False \<or> route e = Inr ())
      \<and> newPage e = Inr ()
      \<and> waitForTimeout e (postWait_of (options_of body)) = Inr ()
      \<and> page_content e = Inr html
      \<and> JSDOM e html (page_url e) = Inr doc
      \<and> Readability_parse e doc = Inr (parsed, doc'))"

section \<open>A concrete page and request\<close>

definition example_document :: document where
  "example_document =
     \<lparr> title_textContent = Some (utf16 '' Test ''),
       meta_name_content = (\<lambda>name. if name = utf16 ''description'' then Some (utf16 ''A page'') else None),
       meta_property_content = (\<lambda>name. None),
       canonical_href = None,
       ld_json_scripts = [Some (utf16 ''{bad''), Some [], Some (utf16 ''null''), Some (utf16 ''7'')],
       anchor_hrefs = [utf16 ''https://e.com/a'', utf16 ''https://e.com/b'', utf16 ''https://e.com/a''],
       heading_elements = [(utf16 ''H1'', Some (utf16 '' Heading ''))],
       img_elements = [(utf16 ''https://e.com/a.png'', Some (utf16 ''pic'')),
                       (utf16 ''https://e.com/b.png'', None)],
       body_textContent = Some (utf16 '' Heading  one two '') \<rparr>"

definition after_failed_parse :: "document \<Rightarrow> document" where
  \<comment> \<open>what \<^verbatim>\<open>parse()\<close> leaves of a page in which it finds no article: the scripts are
      removed first, and the candidates for content are taken out of the body\<close>
  "after_failed_parse doc =
     doc\<lparr> ld_json_scripts := [], anchor_hrefs := [], heading_elements := [],
          img_elements := [], body_textContent := Some [] \<rparr>"

definition example_env :: env where
  "example_env =
     \<lparr> URL_valid = (\<lambda>v. case v of JStr s \<Rightarrow> take 8 s = utf16 ''https://'' | _ \<Rightarrow> False),
       launch = Fulfilled 1,
       newContext = (\<lambda>ua. Inr ()),
       route = Inr (),
       newPage = Inr (),
       goto = (\<lambda>u t. Inr (Some 200)),
       waitForTimeout = (\<lambda>ms. Inr ()),
       page_url = utf16 ''https://e.com/'',
       page_content = Inr (utf16 ''<html>''),
       JSDOM = (\<lambda>html u. Inr example_document),
       Readability_parse = (\<lambda>doc. Inr (None, after_failed_parse doc)),
       JSON_parse = (\<lambda>s. if s = utf16 ''null'' then Some JNull
                          else if s = utf16 ''7'' then Some (JNum 7) else None),
       toISOString_now = utf16 ''2024-01-01T00:00:00.000Z'',
       page_screenshot = Inr (utf16 ''iVBORw0KGgo=''),
       page_close = Inr (),
       context_close = Inr () \<rparr>"

definition env_screenshot_fails :: env where
  "env_screenshot_fails = example_env\<lparr>page_screenshot := Inl (utf16 ''screenshot failed'')\<rparr>"

definition env_launch_fails :: env where
  "env_launch_fails = example_env\<lparr>launch := Rejected (utf16 ''launch failed'')\<rparr>"

definition env_navigation_times_out :: env where
  "env_navigation_times_out = example_env\<lparr>goto := (\<lambda>u t. Inl (utf16 ''Timeout 20000ms exceeded''))\<rparr>"

definition world0 :: world where
  "world0 = \<lparr> sagashi_browser = None, calls = [], next_handle = 0,
              open_contexts = [], open_pages = [] \<rparr>"

definition example_request :: jsval where
  "example_request = JObj [(utf16 ''url'', JStr (utf16 ''https://e.com/''))]"

definition screenshot_request :: jsval where
  "screenshot_request =
     JObj [(utf16 ''url'', JStr (utf16 ''https://e.com/'')),
           (utf16 ''options'', JObj [(utf16 ''screenshot'', JBool True)])]"

definition normalized_example :: jstring where
  "normalized_example = utf16 ''First line'' @ [newline, newline] @ utf16 ''second  line''"

section \<open>Splitting and trimming\<close>

lemma split_where_not_Nil: "split_where P xs \<noteq> []"
  by (induction xs) (auto simp: Let_def)

lemma split_where_sep:
  "P c \<Longrightarrow> split_where P (xs @ c # ys) = split_where P xs @ split_where P ys"
proof (induction xs)
  case Nil
  then show ?case by simp
next
  case (Cons x xs)
  then show ?case
    using split_where_not_Nil [of P xs] by (cases "split_where P xs") (auto simp: Let_def)
qed

lemma split_where_no_sep: "\<forall>x\<in>set xs. \<not> P x \<Longrightarrow> split_where P xs = [xs]"
  by (induction xs) (auto simp: Let_def)

lemma split_where_pieces: "l \<in> set (split_where P xs) \<Longrightarrow> x \<in> set l \<Longrightarrow> \<not> P x"
proof (induction xs arbitrary: l)
  case Nil
  then show ?case by simp
next
  case (Cons y ys)
  obtain h t where ht: "split_where P ys = h # t"
    using split_where_not_Nil [of P ys] by (cases "split_where P ys") auto
  show ?case
  proof (cases "P y")
    case True
    with Cons.prems have "l = [] \<or> l \<in> set (split_where P ys)" by (auto simp: Let_def)
    with Cons show ?thesis by auto
  next
    case False
    with Cons.prems ht have "l = y # h \<or> l \<in> set t" by (auto simp: Let_def)
    then show ?thesis
    proof
      assume "l = y # h"
      with Cons.prems(2) have "x = y \<or> x \<in> set h" by auto
      then show ?thesis using False Cons.IH [of h] ht by auto
    next
      assume "l \<in> set t"
      then show ?thesis using Cons.IH [of l] Cons.prems(2) ht by auto
    qed
  qed
qed

lemma split_newline_pieces: "l \<in> set (split_newline t) \<Longrightarrow> newline \<notin> set l"
  unfolding split_newline_def using split_where_pieces [of l "\<lambda>c. c = newline" t newline] by auto

lemma trim_Nil: "trim [] = []"
  by (simp add: trim_def)

lemma trim_set: "x \<in> set (trim s) \<Longrightarrow> x \<in> set s"
  unfolding trim_def by (auto dest!: set_dropWhileD)

lemma trim_fixed:
  assumes "l \<noteq> []" "\<not> is_ws (hd l)" "\<not> is_ws (last l)"
  shows "trim l = l"
proof -
  have "dropWhile is_ws l = l"
    using assms by (simp add: dropWhile_eq_self_iff)
  moreover have "dropWhile is_ws (rev l) = rev l"
    using assms by (simp add: dropWhile_eq_self_iff hd_rev)
  ultimately show ?thesis by (simp add: trim_def)
qed

lemma trim_ends:
  assumes "trim s \<noteq> []"
  shows "\<not> is_ws (hd (trim s)) \<and> \<not> is_ws (last (trim s))"
proof -
  define a where "a = dropWhile is_ws s"
  define b where "b = dropWhile is_ws (rev a)"
  have t: "trim s = rev b" by (simp add: trim_def a_def b_def)
  with assms have bne: "b \<noteq> []" by simp
  then have hb: "\<not> is_ws (hd b)" unfolding b_def by (rule hd_dropWhile)
  from bne have "rev a \<noteq> []" by (auto simp: b_def)
  then have ane: "a \<noteq> []" by simp
  then have ha: "\<not> is_ws (hd a)" unfolding a_def by (rule hd_dropWhile)
  have "hd a \<in> set (rev a)" using ane by simp
  then have "last b = last (rev a)"
    unfolding b_def using ha by (rule dropWhile_last)
  then have "last b = hd a" using ane by (simp add: last_rev)
  then have "hd (rev b) = hd a" using bne by (simp add: hd_rev)
  moreover have "last (rev b) = hd b" using bne by (simp add: last_rev)
  ultimately show ?thesis using t ha hb by simp
qed

lemma trim_trim: "trim (trim s) = trim s"
proof (cases "trim s = []")
  case True
  then show ?thesis by (simp add: trim_Nil)
next
  case False
  then show ?thesis using trim_ends [of s] by (intro trim_fixed) auto
qed

section \<open>Text normalization\<close>

lemma split_join_blank:
  assumes "\<forall>l\<in>set ls. l \<noteq> [] \<and> newline \<notin> set l"
  shows "filter (\<lambda>l. l \<noteq> []) (split_newline (join [newline, newline] ls)) = ls"
  using assms
proof (induction "[newline, newline]" ls rule: join.induct)
  case 1
  then show ?case by (simp add: split_newline_def)
next
  case (2 x)
  then have "split_newline x = [x]"
    unfolding split_newline_def by (intro split_where_no_sep) auto
  with 2 show ?case by simp
next
  case (3 x y ys)
  have x: "split_newline x = [x]"
    unfolding split_newline_def using 3 by (intro split_where_no_sep) auto
  have "split_newline (x @ newline # (newline # join [newline, newline] (y # ys)))
        = split_newline x @ split_newline (newline # join [newline, newline] (y # ys))"
    unfolding split_newline_def by (rule split_where_sep) simp
  also have "\<dots> = x # [] # split_newline (join [newline, newline] (y # ys))"
    using x by (simp add: split_newline_def Let_def)
  finally show ?case using 3 by simp
qed

lemma cleaned_lines:
  assumes "l \<in> set (filter (\<lambda>line. length line > 0) (map (\<lambda>line. trim line) (split_newline t)))"
  shows "l \<noteq> [] \<and> newline \<notin> set l \<and> trim l = l"
proof -
  from assms obtain l0 where l0: "l0 \<in> set (split_newline t)" "l = trim l0" "l \<noteq> []"
    by auto
  have "newline \<notin> set l"
    using split_newline_pieces [OF l0(1)] trim_set [of newline l0] l0(2) by auto
  then show ?thesis using l0 trim_trim by simp
qed

lemma trim_nonempty_lines:
  "\<forall>l\<in>set xs. l \<noteq> [] \<longrightarrow> trim l = l \<Longrightarrow>
   filter (\<lambda>l. l \<noteq> []) (map trim xs) = filter (\<lambda>l. l \<noteq> []) xs"
  by (induction xs) (auto simp: trim_Nil)

lemma clean_join:
  assumes "\<forall>l\<in>set ls. l \<noteq> [] \<and> newline \<notin> set l \<and> trim l = l"
  shows "cleanedTextContent (join [newline, newline] ls) = join [newline, newline] ls"
proof -
  have s: "filter (\<lambda>l. l \<noteq> []) (split_newline (join [newline, newline] ls)) = ls"
    using assms by (intro split_join_blank) auto
  have "\<forall>l\<in>set (split_newline (join [newline, newline] ls)). l \<noteq> [] \<longrightarrow> trim l = l"
  proof (intro ballI impI)
    fix l assume "l \<in> set (split_newline (join [newline, newline] ls))" "l \<noteq> []"
    then have "l \<in> set (filter (\<lambda>l. l \<noteq> []) (split_newline (join [newline, newline] ls)))"
      by simp
    with s assms show "trim l = l" by simp
  qed
  then have "filter (\<lambda>l. 0 < length l)
               (map (\<lambda>l. trim l) (split_newline (join [newline, newline] ls))) = ls"
    using s by (simp add: trim_nonempty_lines)
  then show ?thesis by (simp add: cleanedTextContent_def)
qed

lemma normalized_fixed:
  assumes n: "normalized_text t"
  shows "cleanedTextContent t = t"
proof -
  define ls where "ls = filter (\<lambda>l. l \<noteq> []) (split_newline t)"
  from n have t: "t = join [newline, newline] ls"
    and e: "list_all (\<lambda>l. \<not> is_ws (hd l) \<and> \<not> is_ws (last l)) ls"
    by (simp_all add: normalized_text_def ls_def Let_def)
  have "\<forall>l\<in>set ls. l \<noteq> [] \<and> newline \<notin> set l \<and> trim l = l"
  proof
    fix l assume l: "l \<in> set ls"
    then have "l \<noteq> []" "l \<in> set (split_newline t)" by (auto simp: ls_def)
    moreover from e l have "\<not> is_ws (hd l) \<and> \<not> is_ws (last l)" by (simp add: list_all_iff)
    ultimately show "l \<noteq> [] \<and> newline \<notin> set l \<and> trim l = l"
      using split_newline_pieces trim_fixed by blast
  qed
  then have "cleanedTextContent (join [newline, newline] ls) = join [newline, newline] ls"
    by (rule clean_join)
  with t show ?thesis by simp
qed

lemma cleaned_normalized: "normalized_text (cleanedTextContent t)"
proof -
  define ls where
    "ls = filter (\<lambda>line. length line > 0) (map (\<lambda>line. trim line) (split_newline t))"
  have c: "cleanedTextContent t = join [newline, newline] ls"
    by (simp add: cleanedTextContent_def ls_def)
  have p: "\<forall>l\<in>set ls. l \<noteq> [] \<and> newline \<notin> set l \<and> trim l = l"
    using cleaned_lines unfolding ls_def by blast
  then have s: "filter (\<lambda>l. l \<noteq> []) (split_newline (join [newline, newline] ls)) = ls"
    by (intro split_join_blank) auto
  have "list_all (\<lambda>l. \<not> is_ws (hd l) \<and> \<not> is_ws (last l)) ls"
    unfolding list_all_iff
  proof
    fix l assume "l \<in> set ls"
    with p have "l \<noteq> []" "trim l = l" by auto
    then show "\<not> is_ws (hd l) \<and> \<not> is_ws (last l)" using trim_ends [of l] by simp
  qed
  with s c show ?thesis by (simp add: normalized_text_def Let_def)
qed

text \<open>
  Claim C6. The text normalization of lines 78-82 is idempotent: its output is in
  normalized form (non-empty lines without white space at either end, separated by blank
  lines), and a text in that form is returned as it is.
\<close>

theorem cleanedTextContent_idempotent:
  "cleanedTextContent (cleanedTextContent t) = cleanedTextContent t
   \<and> (normalized_text t \<longrightarrow> cleanedTextContent t = t)"
  using normalized_fixed cleaned_normalized by blast

lemma normalized_example_ok: "normalized_text normalized_example"
  by (simp add: normalized_example_def normalized_text_def utf16_def split_newline_def
      newline_def is_ws_def)

theorem cleanedTextContent_idempotent_witness:
  "normalized_text normalized_example
   \<and> cleanedTextContent normalized_example = normalized_example
   \<and> cleanedTextContent (cleanedTextContent normalized_example)
       = cleanedTextContent normalized_example"
  using cleanedTextContent_idempotent [of normalized_example] normalized_example_ok by blast

section \<open>Word count and reading time\<close>

lemma tokens_leading:
  "\<forall>c\<in>set pre. is_ws c \<Longrightarrow> whitespace_tokens (pre @ s) = whitespace_tokens s"
  by (induction pre) (auto simp: whitespace_tokens_def Let_def)

lemma tokens_trailing:
  "\<forall>c\<in>set post. is_ws c \<Longrightarrow> whitespace_tokens (s @ post) = whitespace_tokens s"
proof (induction post rule: rev_induct)
  case Nil
  then show ?case by simp
next
  case (snoc c post)
  then have c: "is_ws c" by simp
  have "split_where is_ws ((s @ post) @ c # []) = split_where is_ws (s @ post) @ split_where is_ws []"
    using c by (rule split_where_sep)
  then have "whitespace_tokens (s @ post @ [c]) = whitespace_tokens (s @ post)"
    by (simp add: whitespace_tokens_def)
  with snoc show ?case by simp
qed

lemma trim_decompose:
  "\<exists>pre post. s = pre @ trim s @ post \<and> (\<forall>c\<in>set pre. is_ws c) \<and> (\<forall>c\<in>set post. is_ws c)"
proof -
  define a where "a = dropWhile is_ws s"
  have s: "s = takeWhile is_ws s @ a" by (simp add: a_def)
  have "rev (takeWhile is_ws (rev a) @ dropWhile is_ws (rev a)) = a"
    by (simp only: takeWhile_dropWhile_id rev_rev_ident)
  then have "rev (dropWhile is_ws (rev a)) @ rev (takeWhile is_ws (rev a)) = a"
    by (simp only: rev_append)
  then have a: "a = trim s @ rev (takeWhile is_ws (rev a))"
    by (simp only: trim_def a_def)
  have pre: "\<forall>c\<in>set (takeWhile is_ws s). is_ws c" by (auto dest: set_takeWhileD)
  have post: "\<forall>c\<in>set (rev (takeWhile is_ws (rev a))). is_ws c" by (auto dest: set_takeWhileD)
  have "s = takeWhile is_ws s @ trim s @ rev (takeWhile is_ws (rev a))"
    using s a by simp
  with pre post show ?thesis by blast
qed

lemma tokens_trim: "whitespace_tokens (trim s) = whitespace_tokens s"
proof -
  obtain pre post where p: "s = pre @ trim s @ post" "\<forall>c\<in>set pre. is_ws c" "\<forall>c\<in>set post. is_ws c"
    using trim_decompose by blast
  have "whitespace_tokens s = whitespace_tokens (pre @ (trim s @ post))" using p(1) by simp
  also have "\<dots> = whitespace_tokens (trim s @ post)" using p(2) by (rule tokens_leading)
  also have "\<dots> = whitespace_tokens (trim s)" using p(3) by (rule tokens_trailing)
  finally show ?thesis by simp
qed

lemma split_ws_tokens: "filter (\<lambda>t. t \<noteq> []) (split_ws s) = whitespace_tokens s"
proof (induction s rule: split_ws.induct)
  case (1 s)
  define tok where "tok = takeWhile (\<lambda>c. \<not> is_ws c) s"
  define rest where "rest = dropWhile (\<lambda>c. \<not> is_ws c) s"
  have unfold: "split_ws s = (if rest = [] then [tok] else tok # split_ws (dropWhile is_ws rest))"
    by (subst split_ws.simps) (simp only: Let_def tok_def rest_def)
  have s: "s = tok @ rest" by (simp add: tok_def rest_def)
  have tok: "split_where is_ws tok = [tok]"
    unfolding tok_def by (intro split_where_no_sep) (auto dest: set_takeWhileD)
  show ?case
  proof (cases "rest = []")
    case True
    then have "split_ws s = [tok]" by (simp add: unfold)
    moreover have "s = tok" using s True by simp
    ultimately show ?thesis using tok by (simp add: whitespace_tokens_def)
  next
    case False
    then obtain c r where cr: "rest = c # r" by (cases rest) auto
    then have "dropWhile (\<lambda>c. \<not> is_ws c) s = c # r" by (simp only: rest_def)
    then have c: "is_ws c" by (simp add: dropWhile_eq_Cons_conv)
    have sw: "split_ws s = tok # split_ws (dropWhile is_ws rest)"
      using False by (simp add: unfold)
    have ih: "filter (\<lambda>t. t \<noteq> []) (split_ws (dropWhile is_ws rest))
              = whitespace_tokens (dropWhile is_ws rest)"
      using "1.IH" [OF tok_def rest_def False] .
    have "whitespace_tokens (takeWhile is_ws rest @ dropWhile is_ws rest)
          = whitespace_tokens (dropWhile is_ws rest)"
      by (rule tokens_leading) (auto dest: set_takeWhileD)
    then have r: "whitespace_tokens rest = whitespace_tokens (dropWhile is_ws rest)"
      by (simp only: takeWhile_dropWhile_id)
    have "split_where is_ws (tok @ c # r) = split_where is_ws tok @ split_where is_ws r"
      using c by (rule split_where_sep)
    then have "split_where is_ws s = tok # split_where is_ws r"
      using s cr tok by simp
    then have ws: "whitespace_tokens s = filter (\<lambda>t. t \<noteq> []) [tok] @ whitespace_tokens r"
      by (simp add: whitespace_tokens_def)
    have "whitespace_tokens ([c] @ r) = whitespace_tokens r"
      by (rule tokens_leading) (simp add: c)
    then have "whitespace_tokens rest = whitespace_tokens r"
      using cr by simp
    then show ?thesis using sw ih r ws by simp
  qed
qed

lemma wordCount_tokens:
  "(if trim s \<noteq> [] then length (filter (\<lambda>t. t \<noteq> []) (split_ws (trim s))) else 0)
   = length (whitespace_tokens s)"
proof (cases "trim s = []")
  case True
  have "whitespace_tokens s = whitespace_tokens (trim s)" by (simp add: tokens_trim)
  also have "\<dots> = []" using True by (simp add: whitespace_tokens_def)
  finally show ?thesis using True by simp
next
  case False
  then show ?thesis by (simp add: split_ws_tokens tokens_trim)
qed

lemma ceil_div_200: "int (Math_ceil_div n 200) = \<lceil>real n / 200\<rceil>"
proof -
  have "0 \<le> real n / 200" by simp
  then have "0 \<le> \<lceil>real n / 200\<rceil>" by linarith
  then show ?thesis by (simp add: Math_ceil_div_def)
qed

lemma tokens_sep:
  "is_ws c \<Longrightarrow> whitespace_tokens (xs @ c # ys) = whitespace_tokens xs @ whitespace_tokens ys"
  by (simp add: whitespace_tokens_def split_where_sep)

lemma tokens_blank_line:
  "whitespace_tokens (xs @ [newline, newline] @ ys) = whitespace_tokens xs @ whitespace_tokens ys"
proof -
  have nl: "is_ws newline" by (simp add: is_ws_def newline_def)
  have "whitespace_tokens (xs @ newline # ([newline] @ ys))
        = whitespace_tokens xs @ whitespace_tokens ([newline] @ ys)"
    using nl by (rule tokens_sep)
  moreover have "whitespace_tokens ([newline] @ ys) = whitespace_tokens ys"
    by (rule tokens_leading) (simp add: nl)
  ultimately show ?thesis by simp
qed

lemma tokens_Nil: "whitespace_tokens [] = []"
  by (simp add: whitespace_tokens_def)

lemma tokens_join_blank:
  "whitespace_tokens (join [newline, newline] ls) = concat (map whitespace_tokens ls)"
proof (induction "[newline, newline]" ls rule: join.induct)
  case 1
  then show ?case by (simp add: tokens_Nil)
next
  case (2 x)
  then show ?case by simp
next
  case (3 x y ys)
  have "whitespace_tokens (x @ [newline, newline] @ join [newline, newline] (y # ys))
        = whitespace_tokens x @ whitespace_tokens (join [newline, newline] (y # ys))"
    by (rule tokens_blank_line)
  with 3 show ?case by simp
qed

lemma join_split_newline: "join [newline] (split_newline s) = s"
proof (induction s)
  case Nil
  then show ?case by (simp add: split_newline_def)
next
  case (Cons x xs)
  obtain h t where ht: "split_newline xs = h # t"
    using split_where_not_Nil [of "\<lambda>c. c = newline" xs]
    by (cases "split_newline xs") (auto simp: split_newline_def)
  show ?case
  proof (cases "x = newline")
    case True
    then have "split_newline (x # xs) = [] # h # t"
      using ht by (simp add: split_newline_def Let_def)
    with Cons ht True show ?thesis by simp
  next
    case False
    then have sp: "split_newline (x # xs) = (x # h) # t"
      using ht by (simp add: split_newline_def Let_def)
    show ?thesis
    proof (cases t)
      case Nil
      with Cons ht sp show ?thesis by simp
    next
      case (Cons y ys)
      with Cons.IH ht sp show ?thesis by simp
    qed
  qed
qed

lemma tokens_join_newline:
  "whitespace_tokens (join [newline] ls) = concat (map whitespace_tokens ls)"
proof (induction "[newline]" ls rule: join.induct)
  case 1
  then show ?case by (simp add: tokens_Nil)
next
  case (2 x)
  then show ?case by simp
next
  case (3 x y ys)
  have "is_ws newline" by (simp add: is_ws_def newline_def)
  then have "whitespace_tokens (x @ newline # join [newline] (y # ys))
        = whitespace_tokens x @ whitespace_tokens (join [newline] (y # ys))"
    by (rule tokens_sep)
  with 3 show ?case by simp
qed

lemma tokens_lines:
  "whitespace_tokens s = concat (map whitespace_tokens (split_newline s))"
  using tokens_join_newline [of "split_newline s"] by (simp add: join_split_newline)

lemma concat_tokens_trimmed:
  "concat (map whitespace_tokens (filter (\<lambda>l. l \<noteq> []) (map trim ls)))
   = concat (map whitespace_tokens ls)"
proof (induction ls)
  case Nil
  then show ?case by simp
next
  case (Cons a ls)
  have t: "whitespace_tokens (trim a) = whitespace_tokens a" by (rule tokens_trim)
  show ?case
  proof (cases "trim a = []")
    case True
    with t have "whitespace_tokens a = []" by (simp add: tokens_Nil)
    with True Cons show ?thesis by simp
  next
    case False
    with t Cons show ?thesis by simp
  qed
qed

lemma tokens_cleaned: "whitespace_tokens (cleanedTextContent s) = whitespace_tokens s"
proof -
  have "whitespace_tokens (cleanedTextContent s)
        = concat (map whitespace_tokens
            (filter (\<lambda>l. l \<noteq> []) (map trim (split_newline s))))"
    by (simp add: cleanedTextContent_def tokens_join_blank)
  also have "\<dots> = concat (map whitespace_tokens (split_newline s))"
    by (rule concat_tokens_trimmed)
  also have "\<dots> = whitespace_tokens s" by (simp add: tokens_lines)
  finally show ?thesis .
qed

lemma tokens_starts: "s \<noteq> [] \<Longrightarrow> \<not> is_ws (hd s) \<Longrightarrow> whitespace_tokens s \<noteq> []"
  by (cases s) (auto simp: whitespace_tokens_def Let_def)

lemma join_blank_hd: "ls \<noteq> [] \<Longrightarrow> hd ls \<noteq> [] \<Longrightarrow> hd (join [newline, newline] ls) = hd (hd ls)"
  by (induction "[newline, newline]" ls rule: join.induct) auto

lemma cleaned_tokens_nonempty:
  assumes "cleanedTextContent s \<noteq> []"
  shows "whitespace_tokens (cleanedTextContent s) \<noteq> []"
proof -
  define ls where
    "ls = filter (\<lambda>line. length line > 0) (map (\<lambda>line. trim line) (split_newline s))"
  have c: "cleanedTextContent s = join [newline, newline] ls"
    by (simp add: cleanedTextContent_def ls_def)
  with assms have ne: "ls \<noteq> []" by auto
  then have "hd ls \<in> set ls" by simp
  then have h: "hd ls \<noteq> []" "trim (hd ls) = hd ls"
    using cleaned_lines [of "hd ls" s] unfolding ls_def by auto
  then have "\<not> is_ws (hd (hd ls))" using trim_ends [of "hd ls"] by simp
  then have "\<not> is_ws (hd (cleanedTextContent s))"
    using c ne h(1) by (simp add: join_blank_hd)
  with assms show ?thesis by (rule tokens_starts)
qed

lemma extract_wordCount:
  "wordCount (extract_result e u f st doc parsed)
   = token_count (article_text parsed) (orElse (body_textContent doc) [])"
proof -
  define raw where
    "raw = orElse (case parsed of None \<Rightarrow> None | Some a \<Rightarrow> parsed_textContent a) []"
  define cleaned where "cleaned = cleanedTextContent raw"
  have raw: "raw = article_text parsed"
    by (auto simp: raw_def article_text_def orElse_def split: option.splits)
  have "wordCount (extract_result e u f st doc parsed)
        = (if trim (orStr cleaned (orElse (body_textContent doc) [])) \<noteq> []
           then length (filter (\<lambda>t. t \<noteq> [])
                          (split_ws (trim (orStr cleaned (orElse (body_textContent doc) [])))))
           else 0)"
    by (simp add: extract_result_def Let_def cleaned_def raw_def)
  also have "\<dots> = length (whitespace_tokens (orStr cleaned (orElse (body_textContent doc) [])))"
    by (rule wordCount_tokens)
  also have "\<dots> = token_count raw (orElse (body_textContent doc) [])"
  proof (cases "cleaned = []")
    case True
    then have "whitespace_tokens raw = []"
      using tokens_cleaned [of raw] by (simp add: cleaned_def tokens_Nil)
    with True show ?thesis by (simp add: token_count_def orStr_def)
  next
    case False
    then have "whitespace_tokens cleaned \<noteq> []"
      unfolding cleaned_def by (rule cleaned_tokens_nonempty)
    moreover have "whitespace_tokens cleaned = whitespace_tokens raw"
      unfolding cleaned_def by (rule tokens_cleaned)
    ultimately show ?thesis using False by (simp add: token_count_def orStr_def)
  qed
  finally show ?thesis using raw by simp
qed

lemma extract_readingTime:
  "readingTimeMinutes (extract_result e u f st doc parsed)
   = max 1 (Math_ceil_div (wordCount (extract_result e u f st doc parsed)) 200)"
  by (simp add: extract_result_def Let_def)

text \<open>
  On the document it queries, line 120 counts the tokens of the heuristic's text, which
  are those of its normalization, or those of the body's text when the heuristic's text
  has none; the reading time is the ceiling of \<open>wordCount / 200\<close>, and at least 1.
\<close>

lemma wordCount_readingTimeMinutes:
  "wordCount (extract_result e u f st doc parsed)
     = token_count (article_text parsed) (orElse (body_textContent doc) [])
   \<and> int (readingTimeMinutes (extract_result e u f st doc parsed))
     = max 1 \<lceil>real (wordCount (extract_result e u f st doc parsed)) / 200\<rceil>
   \<and> 1 \<le> readingTimeMinutes (extract_result e u f st doc parsed)"
proof -
  let ?n = "wordCount (extract_result e u f st doc parsed)"
  have "int (max 1 (Math_ceil_div ?n 200)) = max 1 (int (Math_ceil_div ?n 200))"
    by simp
  then have "int (readingTimeMinutes (extract_result e u f st doc parsed))
             = max 1 \<lceil>real ?n / 200\<rceil>"
    by (simp only: extract_readingTime ceil_div_200)
  moreover have "1 \<le> readingTimeMinutes (extract_result e u f st doc parsed)"
    by (simp only: extract_readingTime max.cobounded1)
  ultimately show ?thesis using extract_wordCount by blast
qed

section \<open>Links and images\<close>











section \<open>JSON-LD entries\<close>

lemma extract_jsonLd:
  "jsonLd (extract_result e u f st doc parsed)
   = filter truthy (map (jsonLd_entry e) (ld_json_scripts doc))"
  by (simp add: extract_result_def Let_def)

lemma jsonLd_entry_raw:
  "t \<noteq> [] \<Longrightarrow> JSON_parse e t = None \<Longrightarrow> jsonLd_entry e (Some t) = JStr t"
  by (simp add: jsonLd_entry_def orElse_def)

lemma jsonLd_entry_empty:
  "JSON_parse e [] = None \<Longrightarrow> orElse s [] = [] \<Longrightarrow> jsonLd_entry e s = JNull"
  by (auto simp: jsonLd_entry_def orElse_def split: option.splits if_splits)

lemma jsonLd_drop_empty:
  "JSON_parse e [] = None \<Longrightarrow>
   filter truthy (map (jsonLd_entry e) (filter (\<lambda>s. orElse s [] \<noteq> []) xs))
   = filter truthy (map (jsonLd_entry e) xs)"
  by (induction xs) (auto simp: jsonLd_entry_empty)

text \<open>
  On the document it queries, lines 96-102 keep a script's non-empty body that does not
  parse as its raw text, leave no null and no empty string in the array, and drop the
  scripts with an empty body.
\<close>

lemma jsonLd_raw_text_kept:
  "(\<forall>t. Some t \<in> set (ld_json_scripts doc) \<and> t \<noteq> [] \<and> JSON_parse e t = None
        \<longrightarrow> JStr t \<in> set (jsonLd (extract_result e u f st doc parsed)))
   \<and> JNull \<notin> set (jsonLd (extract_result e u f st doc parsed))
   \<and> JStr [] \<notin> set (jsonLd (extract_result e u f st doc parsed))
   \<and> (JSON_parse e [] = None \<longrightarrow>
        jsonLd (extract_result e u f st doc parsed)
        = jsonLd (extract_result e u f st
            (doc\<lparr>ld_json_scripts := filter (\<lambda>s. orElse s [] \<noteq> []) (ld_json_scripts doc)\<rparr>)
            parsed))"
proof -
  have "JStr t \<in> set (jsonLd (extract_result e u f st doc parsed))"
    if "Some t \<in> set (ld_json_scripts doc)" "t \<noteq> []" "JSON_parse e t = None" for t
  proof -
    from that have "jsonLd_entry e (Some t) = JStr t" by (simp add: jsonLd_entry_raw)
    moreover have "truthy (JStr t)" using that by simp
    ultimately show ?thesis unfolding extract_jsonLd using that(1) by force
  qed
  moreover have "JNull \<notin> set (jsonLd (extract_result e u f st doc parsed))"
    unfolding extract_jsonLd by auto
  moreover have "JStr [] \<notin> set (jsonLd (extract_result e u f st doc parsed))"
    unfolding extract_jsonLd by auto
  moreover have "jsonLd (extract_result e u f st doc parsed)
        = jsonLd (extract_result e u f st
            (doc\<lparr>ld_json_scripts := filter (\<lambda>s. orElse s [] \<noteq> []) (ld_json_scripts doc)\<rparr>)
            parsed)" if "JSON_parse e [] = None"
    unfolding extract_jsonLd using that by (simp add: jsonLd_drop_empty)
  ultimately show ?thesis by blast
qed

section \<open>Validation of the request\<close>

lemmas handler_defs = POST_def POST_try_def scrape_def open_page_def render_def finish_def
  close_both_def getBrowser_def called_def options_of_def userAgent_of_def timeout_of_def
  postWait_of_def NextResponse_json_def

lemmas example_defs = example_env_def env_screenshot_fails_def env_launch_fails_def
  env_navigation_times_out_def world0_def example_request_def screenshot_request_def

text \<open>
  Claim C10. When the request body is absent or is not valid JSON, the handler answers
  400 with the missing-url message; the process state, and with it the list of calls to
  the browser engine, is unchanged.
\<close>

theorem POST_unparsable_body:
  "POST e w None
   = (w, NextResponse_json (ErrorBody (utf16 ''Missing `url` in request body'')) 400)"
  by (simp add: POST_def POST_try_def)

text \<open>
  Claim C5. When the url of the request is missing, the empty string, or rejected by the
  URL parser, the handler answers 400 and the process state is unchanged: no launch, no
  call to the browser engine.
\<close>

theorem POST_invalid_url:
  assumes "url_arg = get_prop (case req_json of None \<Rightarrow> JObj [] | Some b \<Rightarrow> b) (utf16 ''url'')"
    and "url_arg = JUndefined \<or> url_arg = JStr [] \<or> \<not> URL_valid e url_arg"
  shows "POST e w req_json
         = (w, NextResponse_json
                 (ErrorBody (if truthy url_arg then utf16 ''Invalid URL''
                             else utf16 ''Missing `url` in request body'')) 400)"
  using assms by (auto simp: POST_def POST_try_def Let_def)

theorem POST_invalid_url_witness:
  "\<not> URL_valid example_env (JStr (utf16 ''e.com/page''))
   \<and> POST example_env world0 (Some (JObj [(utf16 ''url'', JStr (utf16 ''e.com/page''))]))
     = (world0, NextResponse_json (ErrorBody (utf16 ''Invalid URL'')) 400)
   \<and> POST example_env world0 (Some (JObj [(utf16 ''url'', JStr [])]))
     = (world0, NextResponse_json (ErrorBody (utf16 ''Missing `url` in request body'')) 400)
   \<and> POST example_env world0 (Some (JObj []))
     = (world0, NextResponse_json (ErrorBody (utf16 ''Missing `url` in request body'')) 400)"
proof -
  have 1: "\<not> URL_valid example_env (JStr (utf16 ''e.com/page''))"
    by (simp add: example_env_def utf16_def)
  have 2: "JStr (utf16 ''e.com/page'')
           = get_prop (case Some (JObj [(utf16 ''url'', JStr (utf16 ''e.com/page''))]) of
                         None \<Rightarrow> JObj [] | Some b \<Rightarrow> b) (utf16 ''url'')"
    "JStr [] = get_prop (case Some (JObj [(utf16 ''url'', JStr [])]) of
                           None \<Rightarrow> JObj [] | Some b \<Rightarrow> b) (utf16 ''url'')"
    "JUndefined = get_prop (case Some (JObj []) of None \<Rightarrow> JObj [] | Some b \<Rightarrow> b) (utf16 ''url'')"
    by simp_all
  have 3: "truthy (JStr (utf16 ''e.com/page''))" by (simp add: utf16_def)
  show ?thesis
    using POST_invalid_url [OF 2(1), of example_env world0]
      POST_invalid_url [OF 2(2), of example_env world0]
      POST_invalid_url [OF 2(3), of example_env world0] 1 3
    by simp
qed

section \<open>From a valid request to the response\<close>

lemma POST_try_reaches_finish:
  assumes "reaches_extraction e w body html doc parsed doc'"
  shows "\<exists>w' st. POST_try e w (Some body)
           = finish e w' (options_of body) (next_handle w) (Suc (next_handle w))
               (extract_result e (get_prop body (utf16 ''url'')) (page_url e) st doc' parsed)
         \<and> open_contexts w' = next_handle w # open_contexts w
         \<and> open_pages w' = Suc (next_handle w) # open_pages w"
proof (cases "get_prop (options_of body) (utf16 ''blockResources'') = JBool False")
  case True
  with assms show ?thesis
    by (auto simp: reaches_extraction_def POST_try_def scrape_def open_page_def render_def
        getBrowser_def called_def Let_def split: option.splits promise.splits)
next
  case False
  with assms show ?thesis
    by (auto simp: reaches_extraction_def POST_try_def scrape_def open_page_def render_def
        getBrowser_def called_def Let_def split: option.splits promise.splits)
qed

lemma finish_screenshot_throws:
  "truthy (get_prop opts (utf16 ''screenshot'')) \<Longrightarrow> page_screenshot e = Inl err \<Longrightarrow>
   finish e w opts context page res = (called Screenshot w, Inl err)"
  by (simp add: finish_def)

lemma finish_returns:
  assumes "\<not> truthy (get_prop opts (utf16 ''screenshot'')) \<or> \<not> isl (page_screenshot e)"
    and "page_close e = Inr ()" and "context_close e = Inr ()"
  shows "\<exists>w' r. finish e w opts context page res = (w', Inr (NextResponse_json (ResultBody r) 200))
           \<and> (r = res \<or> (\<exists>b. r = res\<lparr>screenshot := Some b,
                                          screenshotMime := Some (utf16 ''image/png'')\<rparr>))"
proof (cases "truthy (get_prop opts (utf16 ''screenshot''))")
  case False
  with assms show ?thesis by (auto simp: finish_def close_both_def Let_def)
next
  case True
  with assms obtain b where "page_screenshot e = Inr b"
    by (cases "page_screenshot e") auto
  with True assms show ?thesis by (auto simp: finish_def close_both_def Let_def)
qed

text \<open>
  What the response holds is computed from the document as the heuristic left it, not
  from the document parsed from the markup.
\<close>

lemma response_reads_document_after_parse:
  assumes "reaches_extraction e w body html doc parsed doc'"
    and "\<not> truthy (get_prop (options_of body) (utf16 ''screenshot'')) \<or> \<not> isl (page_screenshot e)"
    and "page_close e = Inr ()" and "context_close e = Inr ()"
  shows "\<exists>r. snd (POST e w (Some body)) = NextResponse_json (ResultBody r) 200
           \<and> article r = article (extract_result e JNull [] 0 doc' parsed)
           \<and> jsonLd r = jsonLd (extract_result e JNull [] 0 doc' parsed)
           \<and> links r = uniqueLinks doc'
           \<and> headings r = headings_of doc'
           \<and> images r = images_of doc'
           \<and> wordCount r = token_count (article_text parsed) (orElse (body_textContent doc') [])"
proof -
  obtain w1 st where t: "POST_try e w (Some body)
      = finish e w1 (options_of body) (next_handle w) (Suc (next_handle w))
          (extract_result e (get_prop body (utf16 ''url'')) (page_url e) st doc' parsed)"
    using POST_try_reaches_finish [OF assms(1)] by blast
  let ?res = "extract_result e (get_prop body (utf16 ''url'')) (page_url e) st doc' parsed"
  obtain w2 r where f: "finish e w1 (options_of body) (next_handle w) (Suc (next_handle w)) ?res
      = (w2, Inr (NextResponse_json (ResultBody r) 200))"
    and r: "r = ?res \<or> (\<exists>b. r = ?res\<lparr>screenshot := Some b,
                                        screenshotMime := Some (utf16 ''image/png'')\<rparr>)"
    using finish_returns [OF assms(2-4)] by blast
  have 1: "snd (POST e w (Some body)) = NextResponse_json (ResultBody r) 200"
    by (simp add: POST_def t f)
  have 2: "article r = article ?res" "jsonLd r = jsonLd ?res" "links r = links ?res"
    "headings r = headings ?res" "images r = images ?res" "wordCount r = wordCount ?res"
    using r by auto
  have 3: "article ?res = article (extract_result e JNull [] 0 doc' parsed)"
    "jsonLd ?res = jsonLd (extract_result e JNull [] 0 doc' parsed)"
    "links ?res = uniqueLinks doc'" "headings ?res = headings_of doc'"
    "images ?res = images_of doc'"
    by (simp_all add: extract_result_def Let_def)
  have 4: "wordCount ?res = token_count (article_text parsed) (orElse (body_textContent doc') [])"
    by (rule extract_wordCount)
  show ?thesis using 1 2 3 4 by (intro exI [of _ r]) simp
qed

lemma example_reaches:
  "reaches_extraction example_env world0 example_request (utf16 ''<html>'') example_document
     None (after_failed_parse example_document)"
  by (simp add: reaches_extraction_def example_defs getBrowser_def called_def options_of_def
      userAgent_of_def postWait_of_def utf16_def Let_def)

lemma screenshot_example_reaches:
  "reaches_extraction env_screenshot_fails world0 screenshot_request (utf16 ''<html>'')
     example_document None (after_failed_parse example_document)"
  by (simp add: reaches_extraction_def example_defs getBrowser_def called_def options_of_def
      userAgent_of_def postWait_of_def utf16_def Let_def)

lemma example_response:
  "\<exists>r. snd (POST example_env world0 (Some example_request)) = NextResponse_json (ResultBody r) 200
      \<and> article r = None
      \<and> jsonLd r = []
      \<and> links r = []
      \<and> headings r = []
      \<and> images r = []
      \<and> wordCount r = 0"
proof -
  have 1: "\<not> truthy (get_prop (options_of example_request) (utf16 ''screenshot''))
           \<or> \<not> isl (page_screenshot example_env)"
    by (simp add: example_defs)
  have 2: "page_close example_env = Inr ()" "context_close example_env = Inr ()"
    by (simp_all add: example_defs)
  have 3: "article (extract_result example_env JNull [] 0 (after_failed_parse example_document) None)
           = None"
    "jsonLd (extract_result example_env JNull [] 0 (after_failed_parse example_document) None) = []"
    by (simp_all add: extract_result_def after_failed_parse_def Let_def)
  have 4: "uniqueLinks (after_failed_parse example_document) = []"
    "headings_of (after_failed_parse example_document) = []"
    "images_of (after_failed_parse example_document) = []"
    by (simp_all add: uniqueLinks_def headings_of_def images_of_def after_failed_parse_def
        new_Set_def)
  have 5: "token_count (article_text None)
             (orElse (body_textContent (after_failed_parse example_document)) []) = 0"
    by (simp add: token_count_def article_text_def after_failed_parse_def orElse_def tokens_Nil)
  show ?thesis
    using response_reads_document_after_parse [OF example_reaches 1 2] 3 4 5 by auto
qed

section \<open>No article\<close>




section \<open>Fields read after the heuristic ran\<close>

text \<open>
  Claim C7. Lines 96-102 collect the JSON-LD scripts from the document after
  \<^verbatim>\<open>parse()\<close> removed every script from it. On the page below, whose markup has a
  script with the unparsable body \<^verbatim>\<open>{bad\<close>, the response's \<open>jsonLd\<close> is empty: the
  raw text is dropped, not kept.
\<close>

theorem jsonLd_lost_after_parse:
  "JSDOM example_env (utf16 ''<html>'') (page_url example_env) = Inr example_document
   \<and> Some (utf16 ''{bad'') \<in> set (ld_json_scripts example_document)
   \<and> JSON_parse example_env (utf16 ''{bad'') = None
   \<and> ld_json_scripts (after_failed_parse example_document) = []
   \<and> map_option jsonLd (response_result (snd (POST example_env world0 (Some example_request))))
     = Some []"
proof -
  have 1: "JSDOM example_env (utf16 ''<html>'') (page_url example_env) = Inr example_document"
    "JSON_parse example_env (utf16 ''{bad'') = None"
    by (simp_all add: example_defs utf16_def)
  have 2: "Some (utf16 ''{bad'') \<in> set (ld_json_scripts example_document)"
    "ld_json_scripts (after_failed_parse example_document) = []"
    by (simp_all add: example_document_def after_failed_parse_def)
  obtain r where r: "snd (POST example_env world0 (Some example_request))
      = NextResponse_json (ResultBody r) 200" "jsonLd r = []"
    using example_response by blast
  then have "response_result (snd (POST example_env world0 (Some example_request))) = Some r"
    by (simp add: response_result_def NextResponse_json_def)
  then show ?thesis using 1 2 r by simp
qed

text \<open>
  Claim C9. Line 119 reads the fallback text \<^verbatim>\<open>doc.body?.textContent\<close> after
  \<^verbatim>\<open>parse()\<close> emptied the body. On the page below the heuristic produces no text and
  the body of the document parsed from the markup has three tokens, but the response's
  \<open>wordCount\<close> is 0.
\<close>

theorem wordCount_fallback_after_parse:
  "JSDOM example_env (utf16 ''<html>'') (page_url example_env) = Inr example_document
   \<and> Readability_parse example_env example_document
     = Inr (None, after_failed_parse example_document)
   \<and> length (whitespace_tokens (orElse (body_textContent example_document) [])) = 3
   \<and> map_option wordCount (response_result (snd (POST example_env world0 (Some example_request))))
     = Some 0"
proof -
  have 1: "JSDOM example_env (utf16 ''<html>'') (page_url example_env) = Inr example_document"
    "Readability_parse example_env example_document
       = Inr (None, after_failed_parse example_document)"
    by (simp_all add: example_defs)
  have 2: "length (whitespace_tokens (orElse (body_textContent example_document) [])) = 3"
    by (simp add: example_document_def orElse_def whitespace_tokens_def utf16_def is_ws_def
        Let_def)
  obtain r where r: "snd (POST example_env world0 (Some example_request))
      = NextResponse_json (ResultBody r) 200" "wordCount r = 0"
    using example_response by blast
  then have "response_result (snd (POST example_env world0 (Some example_request))) = Some r"
    by (simp add: response_result_def NextResponse_json_def)
  then show ?thesis using 1 2 r by simp
qed

section \<open>A failing screenshot\<close>

text \<open>
  Claim C2, as the code has it. When the screenshot option is set and the capture fails,
  the error reaches the outer \<^verbatim>\<open>catch\<close>: the handler answers 500 with the error's
  message and returns no extraction result.
\<close>

theorem screenshot_failure_is_500:
  assumes "reaches_extraction e w body html doc parsed doc'"
    and "truthy (get_prop (options_of body) (utf16 ''screenshot''))"
    and "page_screenshot e = Inl err"
  shows "snd (POST e w (Some body))
         = NextResponse_json (ErrorBody (orStr err (utf16 ''unknown error''))) 500"
proof -
  obtain w1 st where t: "POST_try e w (Some body)
      = finish e w1 (options_of body) (next_handle w) (Suc (next_handle w))
          (extract_result e (get_prop body (utf16 ''url'')) (page_url e) st doc' parsed)"
    using POST_try_reaches_finish [OF assms(1)] by blast
  show ?thesis
    by (simp add: POST_def t finish_screenshot_throws [OF assms(2,3)])
qed

theorem screenshot_failure_is_500_witness:
  "truthy (get_prop (options_of screenshot_request) (utf16 ''screenshot''))
   \<and> page_screenshot env_screenshot_fails = Inl (utf16 ''screenshot failed'')
   \<and> snd (POST env_screenshot_fails world0 (Some screenshot_request))
     = NextResponse_json (ErrorBody (utf16 ''screenshot failed'')) 500"
proof -
  have 1: "truthy (get_prop (options_of screenshot_request) (utf16 ''screenshot''))"
    by (simp add: example_defs options_of_def utf16_def)
  have 2: "page_screenshot env_screenshot_fails = Inl (utf16 ''screenshot failed'')"
    by (simp add: example_defs)
  show ?thesis
    using screenshot_failure_is_500 [OF screenshot_example_reaches 1 2] 1 2
    by (simp add: orStr_def utf16_def)
qed

text \<open>
  The claim as the specification states it fails on this request: the screenshot is asked
  for, the capture fails, and the response is an error, not the extraction result.
\<close>

theorem screenshot_failure_counterexample:
  "truthy (get_prop (options_of screenshot_request) (utf16 ''screenshot''))
   \<and> isl (page_screenshot env_screenshot_fails)
   \<and> http_status (snd (POST env_screenshot_fails world0 (Some screenshot_request))) = 500
   \<and> payload (snd (POST env_screenshot_fails world0 (Some screenshot_request)))
     = ErrorBody (utf16 ''screenshot failed'')"
  by (simp add: handler_defs example_defs utf16_def orStr_def Let_def)

section \<open>Cleanup\<close>

text \<open>
  On the path that returns the result, also after a navigation that timed out, the page
  and the context are closed.
\<close>

lemma result_path_closes:
  "fst (POST example_env world0 (Some example_request))
   = \<lparr> sagashi_browser = Some (Fulfilled 1),
       calls = [Launch, NewContext, Route, NewPage, Goto, WaitForTimeout, Content,
                ClosePage, CloseContext],
       next_handle = 2, open_contexts = [], open_pages = [] \<rparr>"
  by (simp add: handler_defs example_defs utf16_def Let_def)

lemma navigation_timeout_closes:
  "open_pages (fst (POST env_navigation_times_out world0 (Some example_request))) = []
   \<and> open_contexts (fst (POST env_navigation_times_out world0 (Some example_request))) = []
   \<and> http_status (snd (POST env_navigation_times_out world0 (Some example_request))) = 200"
  by (simp add: handler_defs example_defs utf16_def Let_def)

text \<open>
  A screenshot that throws leaves both open, whatever the page.
\<close>

lemma screenshot_failure_leaks:
  assumes "reaches_extraction e w body html doc parsed doc'"
    and "truthy (get_prop (options_of body) (utf16 ''screenshot''))"
    and "page_screenshot e = Inl err"
  shows "Suc (next_handle w) \<in> set (open_pages (fst (POST e w (Some body))))
         \<and> next_handle w \<in> set (open_contexts (fst (POST e w (Some body))))"
proof -
  obtain w1 st where t: "POST_try e w (Some body)
      = finish e w1 (options_of body) (next_handle w) (Suc (next_handle w))
          (extract_result e (get_prop body (utf16 ''url'')) (page_url e) st doc' parsed)"
    and o: "open_contexts w1 = next_handle w # open_contexts w"
      "open_pages w1 = Suc (next_handle w) # open_pages w"
    using POST_try_reaches_finish [OF assms(1)] by blast
  have "fst (POST e w (Some body)) = called Screenshot w1"
    by (simp add: POST_def t finish_screenshot_throws [OF assms(2,3)])
  then show ?thesis using o by (simp add: called_def)
qed

text \<open>
  Claim C1. The page and the context are closed on the path that returns the result
  (lines 155-156) only. On the request below navigation is reached, the screenshot capture
  throws, and the handler returns with context 0 and page 1 still open: neither
  \<open>ClosePage\<close> nor \<open>CloseContext\<close> is among the calls.
\<close>

theorem screenshot_failure_leaves_page_open:
  "fst (POST env_screenshot_fails world0 (Some screenshot_request))
   = \<lparr> sagashi_browser = Some (Fulfilled 1),
       calls = [Launch, NewContext, Route, NewPage, Goto, WaitForTimeout, Content, Screenshot],
       next_handle = 2, open_contexts = [0], open_pages = [1] \<rparr>"
  by (simp add: handler_defs example_defs utf16_def Let_def)

section \<open>The cached launch\<close>

text \<open>
  Claim C3, as the code has it. When the launch fails, the request fails with a 500 and
  the rejected promise stays in \<^verbatim>\<open>globalThis.__sagashi_browser\<close>: for every later
  request, \<open>getBrowser\<close> returns that rejection without calling the launch again, and a
  valid request fails with the same 500.
\<close>

theorem rejected_launch_stays_cached:
  assumes "sagashi_browser w = None" and "launch e = Rejected err"
    and "truthy (get_prop body (utf16 ''url''))" and "URL_valid e (get_prop body (utf16 ''url''))"
    and "truthy (get_prop body' (utf16 ''url''))" and "URL_valid e' (get_prop body' (utf16 ''url''))"
    and "w1 = (called Launch w)\<lparr>sagashi_browser := Some (Rejected err)\<rparr>"
  shows "POST e w (Some body)
           = (w1, NextResponse_json (ErrorBody (orStr err (utf16 ''unknown error''))) 500)
         \<and> getBrowser e' w1 = (w1, Rejected err)
         \<and> POST e' w1 (Some body')
           = (w1, NextResponse_json (ErrorBody (orStr err (utf16 ''unknown error''))) 500)"
  using assms
  by (simp add: POST_def POST_try_def scrape_def getBrowser_def called_def Let_def)

theorem rejected_launch_stays_cached_witness:
  "sagashi_browser world0 = None
   \<and> launch env_launch_fails = Rejected (utf16 ''launch failed'')
   \<and> POST env_launch_fails world0 (Some example_request)
     = ((called Launch world0)\<lparr>sagashi_browser := Some (Rejected (utf16 ''launch failed''))\<rparr>,
        NextResponse_json (ErrorBody (utf16 ''launch failed'')) 500)
   \<and> POST example_env
        ((called Launch world0)\<lparr>sagashi_browser := Some (Rejected (utf16 ''launch failed''))\<rparr>)
        (Some screenshot_request)
     = ((called Launch world0)\<lparr>sagashi_browser := Some (Rejected (utf16 ''launch failed''))\<rparr>,
        NextResponse_json (ErrorBody (utf16 ''launch failed'')) 500)"
proof -
  have 1: "sagashi_browser world0 = None"
    "launch env_launch_fails = Rejected (utf16 ''launch failed'')"
    by (simp_all add: example_defs)
  have 2: "truthy (get_prop example_request (utf16 ''url''))"
    "URL_valid env_launch_fails (get_prop example_request (utf16 ''url''))"
    "truthy (get_prop screenshot_request (utf16 ''url''))"
    "URL_valid example_env (get_prop screenshot_request (utf16 ''url''))"
    by (simp_all add: example_defs utf16_def)
  show ?thesis
    using rejected_launch_stays_cached [OF 1 2 refl] 1
    by (simp add: orStr_def utf16_def)
qed

text \<open>
  The claim as the specification states it fails here: after a failed launch, a request
  whose own launch would succeed does not launch; it fails with the earlier error, and
  \<open>Launch\<close> stays the only call.
\<close>

theorem launch_not_retried_counterexample:
  "launch example_env = Fulfilled 1
   \<and> POST example_env (fst (POST env_launch_fails world0 (Some example_request)))
       (Some example_request)
     = (\<lparr> sagashi_browser = Some (Rejected (utf16 ''launch failed'')), calls = [Launch],
           next_handle = 0, open_contexts = [], open_pages = [] \<rparr>,
        NextResponse_json (ErrorBody (utf16 ''launch failed'')) 500)"
  by (simp add: handler_defs example_defs utf16_def orStr_def Let_def)

end
